theory Spec2Isabelle
  imports Complex_Main "HOL-Library.AList"
begin

section \<open>Data model of battle\_sim.py\<close>

text \<open>
  Python exceptions are values: every function of the source that can raise returns
  \<open>error + 'a\<close>, with \<open>Inl\<close> for the exception.
\<close>

datatype error = ValueError string | KeyError string | IndexError

text \<open>
  The frozen dataclass \<open>UnitDef\<close>. \<open>attack\<close> and \<open>defense\<close> are integer
  percentages; \<open>food\<close> is a float in the source and plays no part in combat.
\<close>

record UnitDef =
  gold :: int
  food :: rat
  wood :: int
  iron :: int
  attack :: int
  defense :: int

definition mk_unit :: "int \<Rightarrow> rat \<Rightarrow> int \<Rightarrow> int \<Rightarrow> int \<Rightarrow> int \<Rightarrow> UnitDef" where
  "mk_unit g f w i a d =
     \<lparr>gold = g, food = f, wood = w, iron = i, attack = a, defense = d\<rparr>"

text \<open>
  A Python \<open>dict\<close> keeps insertion order, and the order of iteration decides the order
  of the random draws: a dict is an association list. \<open>d[k] = v\<close> is
  \<^const>\<open>AList.update\<close> (replace in place, or append), \<open>del d[k]\<close> is
  \<^const>\<open>AList.delete\<close>, \<open>d.get(k, v)\<close> is \<open>dict_get\<close>. The keys of a dict are
  distinct; theorems that need it assume \<open>distinct (map fst d)\<close>.
\<close>

type_synonym 'v dict = "(string \<times> 'v) list"

type_synonym army = "int dict"

type_synonym catalog = "string \<rightharpoonup> UnitDef"

definition dict_get :: "'v dict \<Rightarrow> string \<Rightarrow> 'v \<Rightarrow> 'v" where
  "dict_get d k dflt = (case map_of d k of None \<Rightarrow> dflt | Some v \<Rightarrow> v)"

text \<open>The module-level table \<open>default_units\<close>.\<close>

definition default_units_items :: "UnitDef dict" where
  "default_units_items =
     [(''Peasants'', mk_unit 0 (1/10) 0 0 5 10),
      (''Spearmen'', mk_unit 1 (1/10) 0 0 10 25),
      (''Swordsmen'', mk_unit 2 (1/10) 0 0 30 40),
      (''Archers'', mk_unit 3 (1/10) 1 0 25 15),
      (''Crossbowmen'', mk_unit 2 (1/10) 1 0 20 15),
      (''Horsemen'', mk_unit 5 (2/10) 0 0 30 30),
      (''Knights'', mk_unit 10 (2/10) 0 1 60 60),
      (''Mounted Knights'', mk_unit 15 (4/10) 0 1 65 60),
      (''Royal Guard'', mk_unit 20 (3/10) 0 1 80 80)]"

definition default_units :: catalog where
  "default_units = map_of default_units_items"

section \<open>Army construction\<close>

text \<open>
  \<open>make_army\<close>: the loop over \<open>spec.items()\<close>, with the army built so far as the
  accumulator. The \<open>raise\<close> leaves the loop at once, so nothing of the army built so
  far is returned.
\<close>

fun make_army_loop :: "int dict \<Rightarrow> catalog \<Rightarrow> army \<Rightarrow> error + army" where
  "make_army_loop [] unit_defs army = Inr army"
| "make_army_loop ((unit_type, count) # rest) unit_defs army =
     (if count \<le> 0 then make_army_loop rest unit_defs army
      else if unit_defs unit_type = None
        then Inl (ValueError (''Unknown unit type: '' @ unit_type))
      else make_army_loop rest unit_defs (AList.update unit_type count army))"

definition make_army :: "int dict \<Rightarrow> catalog \<Rightarrow> error + army" where
  "make_army spec unit_defs = make_army_loop spec unit_defs []"

definition army_size :: "army \<Rightarrow> int" where
  "army_size army = sum_list (map snd army)"

definition alive_types :: "army \<Rightarrow> string list" where
  "alive_types army = map fst (filter (\<lambda>(unit_type, count). count > 0) army)"

section \<open>The randomness source\<close>

text \<open>
  \<open>numpy.random.Generator\<close> is not code of this repository: it is a parameter. A
  generator is a state \<open>'g\<close> with the three operations the source calls, each
  returning the drawn value and the next state. \<open>rng_seed\<close> is
  \<open>np.random.default_rng(seed)\<close> for an integer seed. Probabilities are floats in the
  source; here they are the rationals the floats approximate, which decides the same
  branches (\<open>p <= 0\<close> holds of \<open>attack / 100.0\<close> exactly when it holds of the
  quotient).
\<close>

record 'g generator =
  rng_seed :: "int \<Rightarrow> 'g"
  rng_binomial :: "'g \<Rightarrow> int \<Rightarrow> rat \<Rightarrow> int \<times> 'g"
  rng_multinomial :: "'g \<Rightarrow> int \<Rightarrow> rat list \<Rightarrow> int list \<times> 'g"

section \<open>Combat resolution\<close>

definition binomial_rng :: "'g generator \<Rightarrow> 'g \<Rightarrow> int \<Rightarrow> rat \<Rightarrow> int \<times> 'g" where
  "binomial_rng gen rng n p =
     (if n \<le> 0 \<or> p \<le> 0 then (0, rng)
      else rng_binomial gen rng n (min (max p 0) 1))"

definition multinomial_rng ::
  "'g generator \<Rightarrow> 'g \<Rightarrow> int \<Rightarrow> rat list \<Rightarrow> int list \<times> 'g" where
  "multinomial_rng gen rng n probs =
     (if n \<le> 0 then (map (\<lambda>_. 0) probs, rng)
      else let total = sum_list probs in
        if total \<le> 0 then (map (\<lambda>_. 0) probs, rng)
        else rng_multinomial gen rng n (map (\<lambda>p. p / total) probs))"

text \<open>
  \<open>_attacks_to_hits\<close>: the loop over \<open>attacker.items()\<close> with \<open>total_hits\<close> as the
  accumulator. The catalog read is the module-level \<open>default_units\<close>; a unit type it
  does not hold raises \<open>KeyError\<close>.
\<close>

fun attacks_to_hits_loop ::
  "'g generator \<Rightarrow> army \<Rightarrow> int \<Rightarrow> 'g \<Rightarrow> error + (int \<times> 'g)" where
  "attacks_to_hits_loop gen [] total_hits rng = Inr (total_hits, rng)"
| "attacks_to_hits_loop gen ((unit_type, count) # rest) total_hits rng =
     (if count \<le> 0 then attacks_to_hits_loop gen rest total_hits rng
      else case default_units unit_type of
        None \<Rightarrow> Inl (KeyError unit_type)
      | Some unit_def \<Rightarrow>
          let atk_pct = of_int (attack unit_def) / 100;
              (h, rng') = binomial_rng gen rng count atk_pct
          in attacks_to_hits_loop gen rest (total_hits + h) rng')"

definition attacks_to_hits :: "'g generator \<Rightarrow> army \<Rightarrow> 'g \<Rightarrow> error + (int \<times> 'g)" where
  "attacks_to_hits gen attacker rng = attacks_to_hits_loop gen attacker 0 rng"

text \<open>
  \<open>_distribute_hits_across_defender\<close>. \<open>defender[unit_type]\<close> reads a key that
  \<open>alive_types\<close> has just listed, so it cannot raise. The final comprehension indexes
  \<open>draws\<close> up to \<open>len(unit_types)\<close> and raises \<open>IndexError\<close> on a shorter array;
  its keys are the distinct keys of a dict, so it is the list of its items.
\<close>

definition distribute_hits_across_defender ::
  "'g generator \<Rightarrow> army \<Rightarrow> int \<Rightarrow> 'g \<Rightarrow> error + (int dict \<times> 'g)" where
  "distribute_hits_across_defender gen defender total_hits rng =
     (let unit_types = alive_types defender in
      if unit_types = [] \<or> total_hits \<le> 0 then Inr ([], rng)
      else
        let counts = map (\<lambda>unit_type. of_int (dict_get defender unit_type 0)) unit_types;
            (draws, rng') = multinomial_rng gen rng total_hits counts
        in if length draws < length unit_types then Inl IndexError
           else Inr (map (\<lambda>i. (unit_types ! i, draws ! i))
                       (filter (\<lambda>i. draws ! i > 0) [0..<length unit_types]), rng'))"

text \<open>\<open>_defense_resolution\<close>: the loop over \<open>assigned_hits.items()\<close>, building \<open>kills\<close>.\<close>

fun defense_resolution_loop ::
  "'g generator \<Rightarrow> int dict \<Rightarrow> int dict \<Rightarrow> 'g \<Rightarrow> error + (int dict \<times> 'g)" where
  "defense_resolution_loop gen [] kills rng = Inr (kills, rng)"
| "defense_resolution_loop gen ((unit_type, hits) # rest) kills rng =
     (if hits \<le> 0 then defense_resolution_loop gen rest kills rng
      else case default_units unit_type of
        None \<Rightarrow> Inl (KeyError unit_type)
      | Some unit_def \<Rightarrow>
          let def_pct = of_int (defense unit_def) / 100;
              (pen, rng') = binomial_rng gen rng hits (max 0 (1 - def_pct))
          in defense_resolution_loop gen rest
               (if pen > 0 then AList.update unit_type pen kills else kills) rng')"

definition defense_resolution ::
  "'g generator \<Rightarrow> int dict \<Rightarrow> 'g \<Rightarrow> error + (int dict \<times> 'g)" where
  "defense_resolution gen assigned_hits rng =
     defense_resolution_loop gen assigned_hits [] rng"

text \<open>
  \<open>_apply_kills\<close> mutates the army it is given: the model takes the army and returns
  it updated, with the actual casualties. The loop is over \<open>kills.items()\<close>. The test
  \<open>army[unit_type] <= 0\<close> reads the entry written on the line before.
\<close>

fun apply_kills_loop :: "int dict \<Rightarrow> army \<Rightarrow> int dict \<Rightarrow> army \<times> int dict" where
  "apply_kills_loop [] army actual_kills = (army, actual_kills)"
| "apply_kills_loop ((unit_type, kill_count) # rest) army actual_kills =
     (if kill_count \<le> 0 then apply_kills_loop rest army actual_kills
      else
        let available = dict_get army unit_type 0 in
        if available \<le> 0 then apply_kills_loop rest army actual_kills
        else
          let actual_kill_count = min kill_count available;
              army1 = AList.update unit_type (available - actual_kill_count) army;
              army2 = (if dict_get army1 unit_type 0 \<le> 0
                       then AList.delete unit_type army1 else army1)
          in apply_kills_loop rest army2
               (AList.update unit_type actual_kill_count actual_kills))"

definition apply_kills :: "army \<Rightarrow> int dict \<Rightarrow> army \<times> int dict" where
  "apply_kills army kills = apply_kills_loop kills army []"

section \<open>Battle loop\<close>

text \<open>The dictionaries of the report.\<close>

record side_report =
  sr_size_end :: int
  sr_hits :: int
  sr_assigned_hits :: "int dict"
  sr_kills_after_defense :: "int dict"
  sr_kills :: "int dict"
  sr_army :: army

record round_report =
  rr_round :: int
  rr_A :: side_report
  rr_B :: side_report

record final_sizes =
  fs_A :: int
  fs_B :: int

record summary =
  sm_winner :: string
  sm_rounds :: int
  sm_final_A :: army
  sm_final_B :: army
  sm_final_sizes :: final_sizes

record report =
  rp_rounds :: "round_report list"
  rp_summary :: summary

text \<open>
  Armies are mutable objects, and \<open>simulate_battle\<close> is handed references to the
  caller's. The store is the list of the dict objects that exist; a reference is an
  index into it. \<open>dict(d)\<close> allocates a new object holding the items of \<open>d\<close>.
\<close>

type_synonym heap = "army list"

definition dict_copy :: "heap \<Rightarrow> nat \<Rightarrow> heap \<times> nat" where
  "dict_copy h r = (h @ [h ! r], length h)"

text \<open>
  The body of the \<open>while\<close> loop, lines 184 to 220: \<open>A\<close> and \<open>B\<close> are the references
  held by the local variables of the same names. It returns the round's report, the
  store and the generator state; an exception leaves the store as it was, since every
  \<open>raise\<close> precedes the first mutation.
\<close>

definition battle_round ::
  "'g generator \<Rightarrow> nat \<Rightarrow> nat \<Rightarrow> heap \<Rightarrow> 'g \<Rightarrow> int \<Rightarrow>
     error + (round_report \<times> heap \<times> 'g)" where
  "battle_round gen A B h rng round_idx =
     (case attacks_to_hits gen (h ! A) rng of Inl e \<Rightarrow> Inl e | Inr (a_hits, rng1) \<Rightarrow>
      case distribute_hits_across_defender gen (h ! B) a_hits rng1 of
        Inl e \<Rightarrow> Inl e | Inr (a_assign, rng2) \<Rightarrow>
      case defense_resolution gen a_assign rng2 of Inl e \<Rightarrow> Inl e | Inr (a_kills, rng3) \<Rightarrow>
      case attacks_to_hits gen (h ! B) rng3 of Inl e \<Rightarrow> Inl e | Inr (b_hits, rng4) \<Rightarrow>
      case distribute_hits_across_defender gen (h ! A) b_hits rng4 of
        Inl e \<Rightarrow> Inl e | Inr (b_assign, rng5) \<Rightarrow>
      case defense_resolution gen b_assign rng5 of Inl e \<Rightarrow> Inl e | Inr (b_kills, rng6) \<Rightarrow>
      let (army_B, a_deaths) = apply_kills (h ! B) a_kills;
          h1 = h[B := army_B];
          (army_A, b_deaths) = apply_kills (h1 ! A) b_kills;
          h2 = h1[A := army_A];
          round_report =
            \<lparr>rr_round = round_idx,
             rr_A = \<lparr>sr_size_end = army_size (h2 ! A), sr_hits = a_hits,
                     sr_assigned_hits = a_assign, sr_kills_after_defense = a_kills,
                     sr_kills = a_deaths, sr_army = h2 ! A\<rparr>,
             rr_B = \<lparr>sr_size_end = army_size (h2 ! B), sr_hits = b_hits,
                     sr_assigned_hits = b_assign, sr_kills_after_defense = b_kills,
                     sr_kills = b_deaths, sr_army = h2 ! B\<rparr>\<rparr>
      in Inr (round_report, h2, rng6))"

text \<open>
  The \<open>while\<close> loop. \<open>round_idx\<close> grows by one in each iteration and the loop runs
  only while it is below \<open>max_rounds\<close>, which is the termination argument.
\<close>

function battle_loop ::
  "'g generator \<Rightarrow> int \<Rightarrow> nat \<Rightarrow> nat \<Rightarrow> heap \<Rightarrow> 'g \<Rightarrow> round_report list \<Rightarrow> int \<Rightarrow>
     heap \<times> (error + (round_report list \<times> int))" where
  "battle_loop gen max_rounds A B h rng rounds round_idx =
     (if army_size (h ! A) > 0 \<and> army_size (h ! B) > 0 \<and> round_idx < max_rounds then
        (case battle_round gen A B h rng (round_idx + 1) of
           Inl e \<Rightarrow> (h, Inl e)
         | Inr (round_report, h', rng') \<Rightarrow>
             battle_loop gen max_rounds A B h' rng' (rounds @ [round_report]) (round_idx + 1))
      else (h, Inr (rounds, round_idx)))"
  by pat_completeness auto
termination
  by (relation "measure (\<lambda>(gen, max_rounds, A, B, h, rng, rounds, round_idx).
        nat (max_rounds - round_idx))") auto

declare battle_loop.simps [simp del]

text \<open>
  \<open>simulate_battle\<close>. \<open>army_a\<close> and \<open>army_b\<close> are references into the caller's
  store \<open>h\<close>; the result is the store after the call and the report or the exception.
  \<open>unit_defs\<close> is the parameter of the source, which its body never reads. With
  \<open>seed = None\<close> the generator is seeded from the operating system's entropy, the
  argument \<open>entropy\<close>.
\<close>

definition simulate_battle ::
  "'g generator \<Rightarrow> heap \<Rightarrow> nat \<Rightarrow> nat \<Rightarrow> catalog \<Rightarrow> int option \<Rightarrow> int \<Rightarrow> int \<Rightarrow>
     heap \<times> (error + report)" where
  "simulate_battle gen h army_a army_b unit_defs seed max_rounds entropy =
     (let rng = rng_seed gen (case seed of None \<Rightarrow> entropy | Some s \<Rightarrow> s);
          (h1, A) = dict_copy h army_a;
          (h2, B) = dict_copy h1 army_b
      in case battle_loop gen max_rounds A B h2 rng [] 0 of
           (h3, Inl e) \<Rightarrow> (h3, Inl e)
         | (h3, Inr (rounds, round_idx)) \<Rightarrow>
             let winner =
                   (if army_size (h3 ! A) > 0 \<and> army_size (h3 ! B) = 0 then ''A''
                    else if army_size (h3 ! B) > 0 \<and> army_size (h3 ! A) = 0 then ''B''
                    else ''Draw/MaxRounds'');
                 summary =
                   \<lparr>sm_winner = winner, sm_rounds = round_idx,
                    sm_final_A = h3 ! A, sm_final_B = h3 ! B,
                    sm_final_sizes = \<lparr>fs_A = army_size (h3 ! A), fs_B = army_size (h3 ! B)\<rparr>\<rparr>
             in (h3, Inr \<lparr>rp_rounds = rounds, rp_summary = summary\<rparr>))"

text \<open>\<open>simulate_battle_from_specs\<close>: both armies built against \<open>default_units\<close>.\<close>

definition simulate_battle_from_specs ::
  "'g generator \<Rightarrow> heap \<Rightarrow> int dict \<Rightarrow> int dict \<Rightarrow> int option \<Rightarrow> int \<Rightarrow>
     heap \<times> (error + report)" where
  "simulate_battle_from_specs gen h spec_a spec_b seed entropy =
     (case make_army spec_a default_units of
        Inl e \<Rightarrow> (h, Inl e)
      | Inr army_A \<Rightarrow>
         (case make_army spec_b default_units of
            Inl e \<Rightarrow> (h @ [army_A], Inl e)
          | Inr army_B \<Rightarrow>
              simulate_battle gen (h @ [army_A, army_B]) (length h) (length h + 1)
                default_units seed 100000 entropy))"

section \<open>The round as the specification words it\<close>

text \<open>
  The specification's round, on army values: one side's attack is hit generation, then
  distribution over the defender, then defense resolution; both attacks read the armies
  as they stood when the round began, and both casualty sets are applied afterwards.
  These two definitions follow the specification; \<open>battle_round\<close> above follows the
  source, and the two are compared below.
\<close>

definition attack_phase ::
  "'g generator \<Rightarrow> army \<Rightarrow> army \<Rightarrow> 'g \<Rightarrow> error + (int \<times> int dict \<times> int dict \<times> 'g)" where
  "attack_phase gen attacker defender rng =
     (case attacks_to_hits gen attacker rng of Inl e \<Rightarrow> Inl e | Inr (hits, rng1) \<Rightarrow>
      case distribute_hits_across_defender gen defender hits rng1 of
        Inl e \<Rightarrow> Inl e | Inr (assign, rng2) \<Rightarrow>
      case defense_resolution gen assign rng2 of
        Inl e \<Rightarrow> Inl e | Inr (kills, rng3) \<Rightarrow> Inr (hits, assign, kills, rng3))"

definition simultaneous_round ::
  "'g generator \<Rightarrow> army \<Rightarrow> army \<Rightarrow> 'g \<Rightarrow> int \<Rightarrow>
     error + (round_report \<times> army \<times> army \<times> 'g)" where
  "simultaneous_round gen start_A start_B rng round_idx =
     (case attack_phase gen start_A start_B rng of
        Inl e \<Rightarrow> Inl e | Inr (a_hits, a_assign, a_kills, rng_mid) \<Rightarrow>
      case attack_phase gen start_B start_A rng_mid of
        Inl e \<Rightarrow> Inl e | Inr (b_hits, b_assign, b_kills, rng') \<Rightarrow>
      let (end_B, a_deaths) = apply_kills start_B a_kills;
          (end_A, b_deaths) = apply_kills start_A b_kills
      in Inr (\<lparr>rr_round = round_idx,
               rr_A = \<lparr>sr_size_end = army_size end_A, sr_hits = a_hits,
                       sr_assigned_hits = a_assign, sr_kills_after_defense = a_kills,
                       sr_kills = a_deaths, sr_army = end_A\<rparr>,
               rr_B = \<lparr>sr_size_end = army_size end_B, sr_hits = b_hits,
                       sr_assigned_hits = b_assign, sr_kills_after_defense = b_kills,
                       sr_kills = b_deaths, sr_army = end_B\<rparr>\<rparr>,
              end_A, end_B, rng'))"

text \<open>The battle on army values: rounds of \<open>simultaneous_round\<close> under the loop's test.\<close>

function rounds_loop ::
  "'g generator \<Rightarrow> int \<Rightarrow> army \<Rightarrow> army \<Rightarrow> 'g \<Rightarrow> round_report list \<Rightarrow> int \<Rightarrow>
     army \<times> army \<times> (error + (round_report list \<times> int))" where
  "rounds_loop gen max_rounds cur_A cur_B rng rounds round_idx =
     (if army_size cur_A > 0 \<and> army_size cur_B > 0 \<and> round_idx < max_rounds then
        (case simultaneous_round gen cur_A cur_B rng (round_idx + 1) of
           Inl e \<Rightarrow> (cur_A, cur_B, Inl e)
         | Inr (round_report, next_A, next_B, rng') \<Rightarrow>
             rounds_loop gen max_rounds next_A next_B rng' (rounds @ [round_report])
               (round_idx + 1))
      else (cur_A, cur_B, Inr (rounds, round_idx)))"
  by pat_completeness auto
termination
  by (relation "measure (\<lambda>(gen, max_rounds, cur_A, cur_B, rng, rounds, round_idx).
        nat (max_rounds - round_idx))") auto

declare rounds_loop.simps [simp del]

text \<open>
  What the specification asks of a round's report, given the two armies as they stood
  when the round began: A's hits, assignment and penetrating hits are an attack phase
  of the starting A on the starting B, B's are an attack phase of the starting B on the
  starting A drawn right after, and each army at the round's end is its starting state
  with the other side's penetrating hits applied. A log is simultaneous when each of
  its rounds is, started from the armies the round before left.
\<close>

definition round_simultaneous :: "'g generator \<Rightarrow> army \<Rightarrow> army \<Rightarrow> round_report \<Rightarrow> bool" where
  "round_simultaneous gen start_A start_B r \<longleftrightarrow>
     (\<exists>rng rng_mid rng'.
        attack_phase gen start_A start_B rng
          = Inr (sr_hits (rr_A r), sr_assigned_hits (rr_A r),
                 sr_kills_after_defense (rr_A r), rng_mid)
        \<and> attack_phase gen start_B start_A rng_mid
          = Inr (sr_hits (rr_B r), sr_assigned_hits (rr_B r),
                 sr_kills_after_defense (rr_B r), rng')
        \<and> apply_kills start_B (sr_kills_after_defense (rr_A r))
          = (sr_army (rr_B r), sr_kills (rr_A r))
        \<and> apply_kills start_A (sr_kills_after_defense (rr_B r))
          = (sr_army (rr_A r), sr_kills (rr_B r)))"

fun log_simultaneous :: "'g generator \<Rightarrow> army \<Rightarrow> army \<Rightarrow> round_report list \<Rightarrow> bool" where
  "log_simultaneous gen start_A start_B [] = True"
| "log_simultaneous gen start_A start_B (r # rest) =
     (round_simultaneous gen start_A start_B r
      \<and> log_simultaneous gen (sr_army (rr_A r)) (sr_army (rr_B r)) rest)"

section \<open>Two scripted generators\<close>

text \<open>
  Two deterministic generators, to run the model on concrete inputs. Their state counts
  the draws made. With \<open>sure_hit_gen\<close> every trial succeeds and every hit of a
  multinomial draw falls on the first category; with \<open>no_hit_gen\<close> no trial succeeds.
\<close>

definition first_takes_all :: "int \<Rightarrow> rat list \<Rightarrow> int list" where
  "first_takes_all n probs = (case probs of [] \<Rightarrow> [] | _ # rest \<Rightarrow> n # map (\<lambda>_. 0) rest)"

definition sure_hit_gen :: "nat generator" where
  "sure_hit_gen =
     \<lparr>rng_seed = (\<lambda>s. 0),
      rng_binomial = (\<lambda>g n p. (n, Suc g)),
      rng_multinomial = (\<lambda>g n probs. (first_takes_all n probs, Suc g))\<rparr>"



section \<open>Concrete inputs\<close>

text \<open>
  A catalog other than \<open>default_units\<close>: it knows a unit type the default table
  lacks, and gives \<open>Peasants\<close> an attack of 100 and a defense of 0.
\<close>

definition custom_units :: catalog where
  "custom_units =
     map_of [(''Dragons'', mk_unit 0 0 0 0 100 0), (''Peasants'', mk_unit 0 0 0 0 100 0)]"

text \<open>A store holding two armies of one peasant each, and the round they fight.\<close>

definition duel_store :: heap where
  "duel_store = [[(''Peasants'', 1)], [(''Peasants'', 1)]]"

definition duel_side :: side_report where
  "duel_side =
     \<lparr>sr_size_end = 0, sr_hits = 1, sr_assigned_hits = [(''Peasants'', 1)],
      sr_kills_after_defense = [(''Peasants'', 1)], sr_kills = [(''Peasants'', 1)],
      sr_army = []\<rparr>"

definition duel_report :: round_report where
  "duel_report = \<lparr>rr_round = 1, rr_A = duel_side, rr_B = duel_side\<rparr>"

section \<open>Dictionaries\<close>

lemma update_fresh_append:
  "k \<notin> fst ` set al \<Longrightarrow> AList.update k v al = al @ [(k, v)]"
  by (induction al) auto

section \<open>Army construction: results\<close>

lemma make_army_loop_result:
  assumes "distinct (map fst spec)" and "fst ` set spec \<inter> fst ` set army = {}"
  shows "make_army_loop spec unit_defs army =
    (case find (\<lambda>(u, c). 0 < c \<and> unit_defs u = None) spec of
       Some (u, c) \<Rightarrow> Inl (ValueError (''Unknown unit type: '' @ u))
     | None \<Rightarrow> Inr (army @ filter (\<lambda>(u, c). 0 < c) spec))"
  using assms
proof (induction spec unit_defs army rule: make_army_loop.induct)
  case (1 unit_defs army)
  then show ?case by simp
next
  case (2 unit_type count rest unit_defs army)
  from "2.prems" have d: "distinct (map fst rest)" by simp
  from "2.prems" have fresh: "unit_type \<notin> fst ` set army" by auto
  from "2.prems" have disj1: "fst ` set rest \<inter> fst ` set army = {}" by auto
  from "2.prems" have "unit_type \<notin> fst ` set rest" by (auto simp: image_iff)
  with disj1 have disj2:
    "fst ` set rest \<inter> fst ` set (AList.update unit_type count army) = {}"
    by (auto simp: AList.dom_update)
  show ?case
  proof (cases "count \<le> 0")
    case True
    with "2.IH"(1)[OF True d disj1] show ?thesis by (simp split: option.splits)
  next
    case False
    show ?thesis
    proof (cases "unit_defs unit_type = None")
      case True
      with False show ?thesis by simp
    next
      case known: False
      from "2.IH"(2)[OF False known d disj2] False known fresh show ?thesis
        by (simp add: update_fresh_append split: option.splits)
    qed
  qed
qed

text \<open>
  C7. Entries with a non-positive count are dropped. If a remaining name is not in the
  catalog, the construction fails with the unknown-unit-type error (a \<open>ValueError\<close>
  naming the first such entry) and returns no army; otherwise the army is exactly the
  positively-counted, catalog-known entries of the specification, in its order.
\<close>

theorem make_army_result:
  assumes "distinct (map fst spec)"
  shows "make_army spec unit_defs =
    (case find (\<lambda>(u, c). 0 < c \<and> unit_defs u = None) spec of
       Some (u, c) \<Rightarrow> Inl (ValueError (''Unknown unit type: '' @ u))
     | None \<Rightarrow> Inr (filter (\<lambda>(u, c). 0 < c \<and> unit_defs u \<noteq> None) spec))"
proof (cases "find (\<lambda>(u, c). 0 < c \<and> unit_defs u = None) spec")
  case None
  then have "\<forall>p\<in>set spec. \<not> (case p of (u, c) \<Rightarrow> 0 < c \<and> unit_defs u = None)"
    unfolding find_None_iff by blast
  then have "filter (\<lambda>(u, c). 0 < c) spec
      = filter (\<lambda>(u, c). 0 < c \<and> unit_defs u \<noteq> None) spec"
    by (intro filter_cong refl) (auto split: prod.splits)
  with None make_army_loop_result[OF assms, of "[]" unit_defs] show ?thesis
    by (simp add: make_army_def)
next
  case (Some p)
  with make_army_loop_result[OF assms, of "[]" unit_defs] show ?thesis
    by (simp add: make_army_def)
qed

theorem make_army_result_witness:
  "distinct (map fst [(''Peasants'', 95::int), (''Swordsmen'', 0), (''Knights'', 5)])
   \<and> make_army [(''Peasants'', 95), (''Swordsmen'', 0), (''Knights'', 5)] default_units
       = Inr [(''Peasants'', 95), (''Knights'', 5)]
   \<and> make_army [(''Peasants'', 95), (''Dragons'', 2), (''Knights'', 5)] default_units
       = Inl (ValueError ''Unknown unit type: Dragons'')"
  using make_army_result
          [of "[(''Peasants'', 95), (''Swordsmen'', 0), (''Knights'', 5)]" default_units]
        make_army_result
          [of "[(''Peasants'', 95), (''Dragons'', 2), (''Knights'', 5)]" default_units]
  by (simp add: default_units_def default_units_items_def)

section \<open>Casualty application\<close>

lemma dict_get_update:
  "dict_get (AList.update k v al) c dflt = (if c = k then v else dict_get al c dflt)"
  by (simp add: dict_get_def AList.update_conv')

lemma dict_get_delete:
  "dict_get (AList.delete k al) c dflt = (if c = k then dflt else dict_get al c dflt)"
  by (simp add: dict_get_def AList.delete_conv')

lemma dict_get_absent: "c \<notin> fst ` set al \<Longrightarrow> dict_get al c dflt = dflt"
  by (simp add: dict_get_def map_of_eq_None_iff[THEN iffD2])

lemma dict_get_in_values:
  "c \<in> fst ` set al \<Longrightarrow> dict_get al c dflt \<in> snd ` set al"
proof -
  assume "c \<in> fst ` set al"
  then obtain v where v: "map_of al c = Some v"
    by (cases "map_of al c") (auto simp: map_of_eq_None_iff)
  then have "(c, v) \<in> set al" by (rule map_of_SomeD)
  with v show ?thesis by (force simp: dict_get_def)
qed

lemma set_update_subset:
  "set (AList.update k v al) \<subseteq> insert (k, v) (set al)"
  by (induction al) auto

text \<open>What the loop leaves in the army, key by key.\<close>

lemma apply_kills_loop_army:
  assumes "distinct (map fst kills)"
  shows "dict_get (fst (apply_kills_loop kills army actual)) c 0 =
    (let k = dict_get kills c 0; a = dict_get army c 0
     in if 0 < k \<and> 0 < a then a - min k a else a)"
  using assms
proof (induction kills army actual rule: apply_kills_loop.induct)
  case (1 army actual_kills)
  then show ?case by (simp add: dict_get_def)
next
  case (2 unit_type kill_count rest army actual_kills)
  from "2.prems" have d: "distinct (map fst rest)" and nin: "unit_type \<notin> fst ` set rest"
    by (auto simp: image_iff)
  have rest_u: "dict_get rest unit_type 0 = 0" using nin by (rule dict_get_absent)
  have head: "dict_get ((unit_type, kill_count) # rest) c 0 =
      (if c = unit_type then kill_count else dict_get rest c 0)"
    by (auto simp: dict_get_def)
  show ?case
  proof (cases "kill_count \<le> 0")
    case True
    with "2.IH"(1)[OF True d] rest_u head show ?thesis by (auto simp: Let_def)
  next
    case pos: False
    show ?thesis
    proof (cases "dict_get army unit_type 0 \<le> 0")
      case True
      with pos "2.IH"(2)[OF pos refl True d] rest_u head show ?thesis
        by (auto simp: Let_def)
    next
      case avail: False
      from "2.IH"(3)[OF pos refl avail refl refl refl d] pos avail rest_u head
      show ?thesis
        by (auto simp: Let_def dict_get_update dict_get_delete)
    qed
  qed
qed


text \<open>What the loop records as actual casualties, key by key.\<close>

lemma apply_kills_loop_actual:
  assumes "distinct (map fst kills)"
  shows "dict_get (snd (apply_kills_loop kills army actual)) c 0 =
    (let k = dict_get kills c 0; a = dict_get army c 0
     in if 0 < k \<and> 0 < a then min k a else dict_get actual c 0)"
  using assms
proof (induction kills army actual rule: apply_kills_loop.induct)
  case (1 army actual_kills)
  then show ?case by (simp add: dict_get_def)
next
  case (2 unit_type kill_count rest army actual_kills)
  from "2.prems" have d: "distinct (map fst rest)" and nin: "unit_type \<notin> fst ` set rest"
    by (auto simp: image_iff)
  have rest_u: "dict_get rest unit_type 0 = 0" using nin by (rule dict_get_absent)
  have head: "dict_get ((unit_type, kill_count) # rest) c 0 =
      (if c = unit_type then kill_count else dict_get rest c 0)"
    by (auto simp: dict_get_def)
  show ?case
  proof (cases "kill_count \<le> 0")
    case True
    with "2.IH"(1)[OF True d] rest_u head show ?thesis by (auto simp: Let_def)
  next
    case pos: False
    show ?thesis
    proof (cases "dict_get army unit_type 0 \<le> 0")
      case True
      with pos "2.IH"(2)[OF pos refl True d] rest_u head show ?thesis
        by (auto simp: Let_def)
    next
      case avail: False
      from "2.IH"(3)[OF pos refl avail refl refl refl d] pos avail rest_u head
      show ?thesis
        by (auto simp: Let_def dict_get_update dict_get_delete)
    qed
  qed
qed

text \<open>Which keys the loop leaves in the army.\<close>

lemma apply_kills_loop_keys:
  assumes "distinct (map fst kills)"
  shows "c \<in> fst ` set (fst (apply_kills_loop kills army actual)) \<longleftrightarrow>
    c \<in> fst ` set army \<and>
    \<not> (0 < dict_get kills c 0 \<and> 0 < dict_get army c 0
        \<and> dict_get army c 0 \<le> dict_get kills c 0)"
  using assms
proof (induction kills army actual rule: apply_kills_loop.induct)
  case (1 army actual_kills)
  then show ?case by (simp add: dict_get_def)
next
  case (2 unit_type kill_count rest army actual_kills)
  from "2.prems" have d: "distinct (map fst rest)" and nin: "unit_type \<notin> fst ` set rest"
    by (auto simp: image_iff)
  have rest_u: "dict_get rest unit_type 0 = 0" using nin by (rule dict_get_absent)
  have head: "dict_get ((unit_type, kill_count) # rest) c 0 =
      (if c = unit_type then kill_count else dict_get rest c 0)"
    by (auto simp: dict_get_def)
  have keys_del: "\<And>k al. fst ` set (AList.delete k al) = fst ` set al - {k}"
    by (auto simp: AList.delete_eq image_iff)
  have present: "0 < dict_get army unit_type 0 \<Longrightarrow> unit_type \<in> fst ` set army"
    using dict_get_absent[of unit_type army 0] by auto
  show ?case
  proof (cases "kill_count \<le> 0")
    case True
    with "2.IH"(1)[OF True d] rest_u head show ?thesis by (auto simp: Let_def)
  next
    case pos: False
    show ?thesis
    proof (cases "dict_get army unit_type 0 \<le> 0")
      case True
      with pos "2.IH"(2)[OF pos refl True d] rest_u head show ?thesis
        by (auto simp: Let_def)
    next
      case avail: False
      from "2.IH"(3)[OF pos refl avail refl refl refl d] pos avail rest_u head present
      show ?thesis
        by (auto simp: Let_def dict_get_update dict_get_delete keys_del AList.dom_update)
    qed
  qed
qed

lemma apply_kills_loop_positive:
  "\<forall>v\<in>snd ` set actual. 0 < v \<Longrightarrow>
   \<forall>v\<in>snd ` set (snd (apply_kills_loop kills army actual)). 0 < v"
proof (induction kills army actual rule: apply_kills_loop.induct)
  case (1 army actual_kills)
  then show ?case by simp
next
  case (2 unit_type kill_count rest army actual_kills)
  show ?case
  proof (cases "kill_count \<le> 0 \<or> dict_get army unit_type 0 \<le> 0")
    case True
    with 2 show ?thesis by (auto simp: Let_def)
  next
    case False
    then have pos: "\<not> kill_count \<le> 0" and avail: "\<not> dict_get army unit_type 0 \<le> 0"
      by auto
    have "\<forall>v\<in>snd ` set (AList.update unit_type
             (min kill_count (dict_get army unit_type 0)) actual_kills). 0 < v"
      using set_update_subset[of unit_type "min kill_count (dict_get army unit_type 0)"
              actual_kills] "2.prems" pos avail
      by fastforce
    from "2.IH"(3)[OF pos refl avail refl refl refl this] pos avail show ?thesis
      by (simp add: Let_def)
  qed
qed

lemma apply_kills_loop_omits:
  "dict_get army c 0 \<le> 0 \<Longrightarrow> c \<notin> fst ` set actual \<Longrightarrow>
   c \<notin> fst ` set (snd (apply_kills_loop kills army actual))"
proof (induction kills army actual rule: apply_kills_loop.induct)
  case (1 army actual_kills)
  then show ?case by simp
next
  case (2 unit_type kill_count rest army actual_kills)
  show ?case
  proof (cases "kill_count \<le> 0 \<or> dict_get army unit_type 0 \<le> 0")
    case True
    with 2 show ?thesis by (auto simp: Let_def)
  next
    case False
    then have pos: "\<not> kill_count \<le> 0" and avail: "\<not> dict_get army unit_type 0 \<le> 0"
      by auto
    from avail "2.prems"(1) have ne: "c \<noteq> unit_type" by auto
    let ?army1 = "AList.update unit_type
        (dict_get army unit_type 0 - min kill_count (dict_get army unit_type 0)) army"
    let ?army2 = "if dict_get ?army1 unit_type 0 \<le> 0
                  then AList.delete unit_type ?army1 else ?army1"
    have a2: "dict_get ?army2 c 0 \<le> 0"
      using ne "2.prems"(1) by (simp add: dict_get_update dict_get_delete)
    have k2: "c \<notin> fst ` set (AList.update unit_type
                (min kill_count (dict_get army unit_type 0)) actual_kills)"
      using ne "2.prems"(2) by (simp add: AList.dom_update)
    from "2.IH"(3)[OF pos refl avail refl refl refl a2 k2] pos avail show ?thesis
      by (simp add: Let_def)
  qed
qed

text \<open>
  C4. For an army with non-negative counts and a dict of non-negative nominal kills, and
  for every category \<open>c\<close> (a missing entry counting as 0): the applied casualties are
  the minimum of the nominal kills and the count before, so never more than that count;
  the count after is the count before minus the applied casualties; a category whose
  count reaches zero is no longer a key of the army. In particular 5 nominal kills on a
  count of 2 apply 2 casualties and remove the category.
\<close>

theorem apply_kills_clamps:
  assumes "distinct (map fst kills)"
    and "\<forall>v\<in>snd ` set kills. 0 \<le> v"
    and "\<forall>v\<in>snd ` set army. 0 \<le> v"
  shows "dict_get (snd (apply_kills army kills)) c 0
           = min (dict_get kills c 0) (dict_get army c 0)
       \<and> dict_get (snd (apply_kills army kills)) c 0 \<le> dict_get army c 0
       \<and> dict_get (fst (apply_kills army kills)) c 0
           = dict_get army c 0 - dict_get (snd (apply_kills army kills)) c 0
       \<and> (0 < dict_get army c 0 \<and> dict_get (fst (apply_kills army kills)) c 0 = 0
            \<longrightarrow> c \<notin> fst ` set (fst (apply_kills army kills)))
       \<and> (dict_get army c 0 = 2 \<and> dict_get kills c 0 = 5
            \<longrightarrow> dict_get (snd (apply_kills army kills)) c 0 = 2
              \<and> c \<notin> fst ` set (fst (apply_kills army kills)))"
proof -
  have k0: "0 \<le> dict_get kills c 0"
    using assms(2) dict_get_in_values[of c kills 0] dict_get_absent[of c kills 0]
    by (cases "c \<in> fst ` set kills") auto
  have a0: "0 \<le> dict_get army c 0"
    using assms(3) dict_get_in_values[of c army 0] dict_get_absent[of c army 0]
    by (cases "c \<in> fst ` set army") auto
  have empty: "dict_get ([] :: int dict) c 0 = 0" by (simp add: dict_get_def)
  have actual: "dict_get (snd (apply_kills army kills)) c 0
      = min (dict_get kills c 0) (dict_get army c 0)"
    using apply_kills_loop_actual[OF assms(1), of army "[]" c] k0 a0 empty
    by (auto simp: apply_kills_def Let_def)
  have after: "dict_get (fst (apply_kills army kills)) c 0
      = dict_get army c 0 - min (dict_get kills c 0) (dict_get army c 0)"
    using apply_kills_loop_army[OF assms(1), of army "[]" c] k0 a0
    by (auto simp: apply_kills_def Let_def)
  have keys: "c \<in> fst ` set (fst (apply_kills army kills)) \<longleftrightarrow>
      c \<in> fst ` set army \<and>
      \<not> (0 < dict_get kills c 0 \<and> 0 < dict_get army c 0
          \<and> dict_get army c 0 \<le> dict_get kills c 0)"
    using apply_kills_loop_keys[OF assms(1), of c army "[]"]
    by (simp add: apply_kills_def)
  from actual after keys k0 a0 show ?thesis by auto
qed

theorem apply_kills_clamps_witness:
  "distinct (map fst [(''Peasants'', 5::int)])
   \<and> apply_kills [(''Peasants'', 2), (''Knights'', 3)] [(''Peasants'', 5)]
       = ([(''Knights'', 3)], [(''Peasants'', 2)])
   \<and> dict_get (snd (apply_kills [(''Peasants'', 2), (''Knights'', 3)] [(''Peasants'', 5)]))
       ''Peasants'' 0 = 2
   \<and> ''Peasants'' \<notin> fst ` set (fst (apply_kills [(''Peasants'', 2), (''Knights'', 3)]
       [(''Peasants'', 5)]))"
  using apply_kills_clamps[of "[(''Peasants'', 5)]" "[(''Peasants'', 2), (''Knights'', 3)]"
          "''Peasants''"]
  by (simp add: apply_kills_def dict_get_def)

section \<open>Hit distribution\<close>










lemma distribute_empty:
  "alive_types defender = [] \<or> total_hits \<le> 0 \<Longrightarrow>
   distribute_hits_across_defender gen defender total_hits rng = Inr ([], rng)"
  by (auto simp: distribute_hits_across_defender_def Let_def)








lemma distribute_positive:
  assumes "distribute_hits_across_defender gen defender total_hits rng = Inr (assign, rng')"
  shows "\<forall>v\<in>snd ` set assign. 0 < v"
proof (cases "alive_types defender = [] \<or> total_hits \<le> 0")
  case True
  with assms show ?thesis by (simp add: distribute_empty)
next
  case False
  with assms show ?thesis
    by (auto simp: distribute_hits_across_defender_def Let_def
             split: prod.splits if_splits)
qed

text \<open>
  C10. The dicts returned by the hit distributor and by the casualty applier hold only
  strictly positive values: a category whose draw is 0 is not a key of the assignment,
  and a category that loses no unit, one absent from the army or at count 0 included,
  is not a key of the actual casualties.
\<close>

theorem returned_dicts_positive:
  "(distribute_hits_across_defender gen defender total_hits rng = Inr (assign, rng')
      \<longrightarrow> (\<forall>v\<in>snd ` set assign. 0 < v))
   \<and> (\<forall>v\<in>snd ` set (snd (apply_kills army kills)). 0 < v)
   \<and> (dict_get army c 0 \<le> 0 \<longrightarrow> c \<notin> fst ` set (snd (apply_kills army kills)))"
proof (intro conjI impI)
  assume "distribute_hits_across_defender gen defender total_hits rng = Inr (assign, rng')"
  then show "\<forall>v\<in>snd ` set assign. 0 < v" by (rule distribute_positive)
next
  show "\<forall>v\<in>snd ` set (snd (apply_kills army kills)). 0 < v"
    using apply_kills_loop_positive[of "[]" kills army] by (simp add: apply_kills_def)
next
  assume "dict_get army c 0 \<le> 0"
  then show "c \<notin> fst ` set (snd (apply_kills army kills))"
    using apply_kills_loop_omits[of army c "[]" kills] by (simp add: apply_kills_def)
qed

theorem returned_dicts_positive_witness:
  "distribute_hits_across_defender sure_hit_gen
      [(''Peasants'', 2), (''Knights'', 3)] 4 0 = Inr ([(''Peasants'', 4)], 1)
   \<and> apply_kills [(''Peasants'', 2), (''Archers'', 0)]
        [(''Peasants'', 1), (''Knights'', 3), (''Archers'', 2), (''Spearmen'', 0)]
       = ([(''Peasants'', 1), (''Archers'', 0)], [(''Peasants'', 1)])
   \<and> dict_get [(''Peasants'', 2::int), (''Archers'', 0)] ''Knights'' 0 = 0
   \<and> ''Knights'' \<notin> fst ` set (snd (apply_kills [(''Peasants'', 2), (''Archers'', 0)]
        [(''Peasants'', 1), (''Knights'', 3), (''Archers'', 2), (''Spearmen'', 0)]))"
proof -
  note t = returned_dicts_positive[of sure_hit_gen "[(''Peasants'', 2), (''Knights'', 3)]"
      4 0 "[(''Peasants'', 4)]" 1 "[(''Peasants'', 2), (''Archers'', 0)]"
      "[(''Peasants'', 1), (''Knights'', 3), (''Archers'', 2), (''Spearmen'', 0)]"
      "''Knights''"]
  have r1: "distribute_hits_across_defender sure_hit_gen
        [(''Peasants'', 2), (''Knights'', 3)] 4 0 = Inr ([(''Peasants'', 4)], 1)"
    by (simp add: distribute_hits_across_defender_def alive_types_def
        multinomial_rng_def sure_hit_gen_def first_takes_all_def dict_get_def Let_def)
  have r2: "apply_kills [(''Peasants'', 2), (''Archers'', 0)]
        [(''Peasants'', 1), (''Knights'', 3), (''Archers'', 2), (''Spearmen'', 0)]
       = ([(''Peasants'', 1), (''Archers'', 0)], [(''Peasants'', 1)])"
    by (simp add: apply_kills_def dict_get_def)
  have r3: "dict_get [(''Peasants'', 2), (''Archers'', 0::int)] ''Knights'' 0 = 0"
    by (simp add: dict_get_def)
  from t r1 r2 r3 show ?thesis by simp
qed

section \<open>The round on the store and the round on values\<close>

lemma battle_round_on_store:
  assumes "A \<noteq> B" and "A < length h" and "B < length h"
  shows "battle_round gen A B h rng round_idx =
    (case simultaneous_round gen (h ! A) (h ! B) rng round_idx of
       Inl e \<Rightarrow> Inl e
     | Inr (round_report, end_A, end_B, rng') \<Rightarrow>
         Inr (round_report, h[B := end_B, A := end_A], rng'))"
  using assms
  by (simp add: battle_round_def simultaneous_round_def attack_phase_def Let_def
           split: sum.splits prod.splits)

lemma battle_loop_stop:
  assumes "\<not> (army_size (h ! A) > 0 \<and> army_size (h ! B) > 0 \<and> round_idx < max_rounds)"
  shows "battle_loop gen max_rounds A B h rng rounds round_idx
           = (h, Inr (rounds, round_idx))"
  by (subst battle_loop.simps) (rule if_not_P[OF assms])

lemma battle_loop_step:
  assumes "army_size (h ! A) > 0 \<and> army_size (h ! B) > 0 \<and> round_idx < max_rounds"
  shows "battle_loop gen max_rounds A B h rng rounds round_idx =
    (case battle_round gen A B h rng (round_idx + 1) of
       Inl e \<Rightarrow> (h, Inl e)
     | Inr (round_report, h', rng') \<Rightarrow>
         battle_loop gen max_rounds A B h' rng' (rounds @ [round_report]) (round_idx + 1))"
  by (subst battle_loop.simps) (rule if_P[OF assms])

lemma rounds_loop_stop:
  assumes "\<not> (army_size cur_A > 0 \<and> army_size cur_B > 0 \<and> round_idx < max_rounds)"
  shows "rounds_loop gen max_rounds cur_A cur_B rng rounds round_idx
           = (cur_A, cur_B, Inr (rounds, round_idx))"
  by (subst rounds_loop.simps) (rule if_not_P[OF assms])

lemma rounds_loop_step:
  assumes "army_size cur_A > 0 \<and> army_size cur_B > 0 \<and> round_idx < max_rounds"
  shows "rounds_loop gen max_rounds cur_A cur_B rng rounds round_idx =
    (case simultaneous_round gen cur_A cur_B rng (round_idx + 1) of
       Inl e \<Rightarrow> (cur_A, cur_B, Inl e)
     | Inr (round_report, next_A, next_B, rng') \<Rightarrow>
         rounds_loop gen max_rounds next_A next_B rng' (rounds @ [round_report])
           (round_idx + 1))"
  by (subst rounds_loop.simps) (rule if_P[OF assms])

lemma battle_loop_on_store:
  assumes "A \<noteq> B" and "A < length h" and "B < length h"
  shows "battle_loop gen max_rounds A B h rng rounds round_idx =
    (case rounds_loop gen max_rounds (h ! A) (h ! B) rng rounds round_idx of
       (end_A, end_B, res) \<Rightarrow> (h[B := end_B, A := end_A], res))"
  using assms
proof (induction gen max_rounds A B h rng rounds round_idx rule: battle_loop.induct)
  case (1 gen max_rounds A B h rng rounds round_idx)
  let ?go = "army_size (h ! A) > 0 \<and> army_size (h ! B) > 0 \<and> round_idx < max_rounds"
  have same: "h[B := h ! B, A := h ! A] = h" by (simp add: list_update_same_conv)
  show ?case
  proof (cases ?go)
    case False
    show ?thesis
      by (simp only: battle_loop_stop[OF False] rounds_loop_stop[OF False] prod.case same)
  next
    case go: True
    note ref = battle_round_on_store[OF "1.prems", of gen rng "round_idx + 1"]
    show ?thesis
    proof (cases "simultaneous_round gen (h ! A) (h ! B) rng (round_idx + 1)")
      case (Inl e)
      with ref have "battle_round gen A B h rng (round_idx + 1) = Inl e" by simp
      with Inl show ?thesis
        by (simp only: battle_loop_step[OF go] rounds_loop_step[OF go] sum.case prod.case same)
    next
      case (Inr r)
      then obtain round_report end_A end_B rng' where
        r: "simultaneous_round gen (h ! A) (h ! B) rng (round_idx + 1)
              = Inr (round_report, end_A, end_B, rng')"
        by (cases r) auto
      let ?h' = "h[B := end_B, A := end_A]"
      from r ref have br: "battle_round gen A B h rng (round_idx + 1)
          = Inr (round_report, ?h', rng')" by simp
      have len: "A < length ?h'" "B < length ?h'" using "1.prems" by simp_all
      have vals: "?h' ! A = end_A" "?h' ! B = end_B" using "1.prems" by simp_all
      have over: "\<And>x y. ?h'[B := y, A := x] = h[B := y, A := x]"
        using "1.prems"(1) by (simp add: list_update_swap)
      have "battle_loop gen max_rounds A B h rng rounds round_idx
          = battle_loop gen max_rounds A B ?h' rng' (rounds @ [round_report]) (round_idx + 1)"
        by (simp only: battle_loop_step[OF go] br sum.case prod.case)
      also have "\<dots> = (case rounds_loop gen max_rounds end_A end_B rng'
                              (rounds @ [round_report]) (round_idx + 1) of
                          (x, y, res) \<Rightarrow> (h[B := y, A := x], res))"
        using "1.IH"[OF go br refl refl "1.prems"(1) len] vals over
        by (simp split: prod.splits)
      also have "\<dots> = (case rounds_loop gen max_rounds (h ! A) (h ! B) rng rounds round_idx of
                          (x, y, res) \<Rightarrow> (h[B := y, A := x], res))"
        by (simp only: rounds_loop_step[OF go] r sum.case prod.case)
      finally show ?thesis .
    qed
  qed
qed


text \<open>
  The whole call on values: the two copies are new objects at the end of the store, the
  loop works on them alone, and the report is built from what the loop leaves there.
\<close>

lemma simulate_battle_on_values:
  assumes "army_a < length h" and "army_b < length h"
  shows "simulate_battle gen h army_a army_b unit_defs seed max_rounds entropy =
    (case rounds_loop gen max_rounds (h ! army_a) (h ! army_b)
            (rng_seed gen (case seed of None \<Rightarrow> entropy | Some s \<Rightarrow> s)) [] 0 of
       (end_A, end_B, Inl e) \<Rightarrow> (h @ [end_A, end_B], Inl e)
     | (end_A, end_B, Inr (rounds, round_idx)) \<Rightarrow>
         (h @ [end_A, end_B],
          Inr \<lparr>rp_rounds = rounds,
               rp_summary =
                 \<lparr>sm_winner =
                    (if army_size end_A > 0 \<and> army_size end_B = 0 then ''A''
                     else if army_size end_B > 0 \<and> army_size end_A = 0 then ''B''
                     else ''Draw/MaxRounds''),
                  sm_rounds = round_idx, sm_final_A = end_A, sm_final_B = end_B,
                  sm_final_sizes =
                    \<lparr>fs_A = army_size end_A, fs_B = army_size end_B\<rparr>\<rparr>\<rparr>))"
proof -
  let ?h2 = "h @ [h ! army_a, h ! army_b]"
  let ?A = "length h" and ?B = "Suc (length h)"
  let ?rng = "rng_seed gen (case seed of None \<Rightarrow> entropy | Some s \<Rightarrow> s)"
  have copies: "dict_copy h army_a = (h @ [h ! army_a], ?A)"
    "dict_copy (h @ [h ! army_a]) army_b = (?h2, ?B)"
    using assms by (simp_all add: dict_copy_def nth_append)
  have vals: "?h2 ! ?A = h ! army_a" "?h2 ! ?B = h ! army_b"
    by (simp_all add: nth_append)
  have upd: "\<And>x y. ?h2[?B := y, ?A := x] = h @ [x, y]"
    by (simp add: list_update_append)
  have loop: "battle_loop gen max_rounds ?A ?B ?h2 ?rng [] 0 =
      (case rounds_loop gen max_rounds (h ! army_a) (h ! army_b) ?rng [] 0 of
         (end_A, end_B, res) \<Rightarrow> (h @ [end_A, end_B], res))"
    using battle_loop_on_store[of ?A ?B ?h2 gen max_rounds ?rng "[]" 0] vals upd
    by simp
  obtain end_A end_B res where
    r: "rounds_loop gen max_rounds (h ! army_a) (h ! army_b) ?rng [] 0 = (end_A, end_B, res)"
    by (cases "rounds_loop gen max_rounds (h ! army_a) (h ! army_b) ?rng [] 0") auto
  have fin: "(h @ [end_A, end_B]) ! ?A = end_A" "(h @ [end_A, end_B]) ! ?B = end_B"
    by (simp_all add: nth_append)
  show ?thesis
    unfolding simulate_battle_def copies Let_def prod.case loop r
    using fin by (cases res) (auto split: prod.splits)
qed

section \<open>The battle loop: bound, log and classification\<close>





section \<open>Runs that raise nothing\<close>










section \<open>Claims about the battle\<close>

text \<open>
  One round of the loop, run on two distinct objects of the store: both sides'
  penetrating hits are the attack phases computed from the two armies as the store held
  them when the round began, the generator being threaded from A's phase into B's, and
  the store after the round holds each army with the other side's penetrating hits
  applied to its state at the start of the round.
\<close>

lemma battle_round_simultaneous:
  assumes "A \<noteq> B" and "A < length h" and "B < length h"
    and "battle_round gen A B h rng round_idx = Inr (round_report, h', rng')"
  shows "\<exists>rng_mid.
      attack_phase gen (h ! A) (h ! B) rng
        = Inr (sr_hits (rr_A round_report), sr_assigned_hits (rr_A round_report),
               sr_kills_after_defense (rr_A round_report), rng_mid)
    \<and> attack_phase gen (h ! B) (h ! A) rng_mid
        = Inr (sr_hits (rr_B round_report), sr_assigned_hits (rr_B round_report),
               sr_kills_after_defense (rr_B round_report), rng')
    \<and> (h' ! B, sr_kills (rr_A round_report))
        = apply_kills (h ! B) (sr_kills_after_defense (rr_A round_report))
    \<and> (h' ! A, sr_kills (rr_B round_report))
        = apply_kills (h ! A) (sr_kills_after_defense (rr_B round_report))
    \<and> sr_army (rr_A round_report) = h' ! A \<and> sr_army (rr_B round_report) = h' ! B"
proof -
  note ref = battle_round_on_store[OF assms(1-3), of gen rng round_idx]
  from assms(4) ref obtain ea eb where
    s: "simultaneous_round gen (h ! A) (h ! B) rng round_idx
          = Inr (round_report, ea, eb, rng')"
    and h': "h' = h[B := eb, A := ea]"
    by (auto split: sum.splits)
  from h' assms(1-3) have vals: "h' ! A = ea" "h' ! B = eb" by simp_all
  from s obtain ah aa ak rm where
    p1: "attack_phase gen (h ! A) (h ! B) rng = Inr (ah, aa, ak, rm)"
    by (auto simp: simultaneous_round_def split: sum.splits)
  from s p1 obtain bh ba bk where
    p2: "attack_phase gen (h ! B) (h ! A) rm = Inr (bh, ba, bk, rng')"
    by (auto simp: simultaneous_round_def Let_def split: sum.splits prod.splits)
  from s p1 p2 vals have
    "attack_phase gen (h ! A) (h ! B) rng
        = Inr (sr_hits (rr_A round_report), sr_assigned_hits (rr_A round_report),
               sr_kills_after_defense (rr_A round_report), rm)
    \<and> attack_phase gen (h ! B) (h ! A) rm
        = Inr (sr_hits (rr_B round_report), sr_assigned_hits (rr_B round_report),
               sr_kills_after_defense (rr_B round_report), rng')
    \<and> (h' ! B, sr_kills (rr_A round_report))
        = apply_kills (h ! B) (sr_kills_after_defense (rr_A round_report))
    \<and> (h' ! A, sr_kills (rr_B round_report))
        = apply_kills (h ! A) (sr_kills_after_defense (rr_B round_report))
    \<and> sr_army (rr_A round_report) = h' ! A \<and> sr_army (rr_B round_report) = h' ! B"
    by (auto simp: simultaneous_round_def Let_def split: prod.splits)
  then show ?thesis by (rule exI)
qed


lemma duel_round:
  "battle_round sure_hit_gen 0 1 duel_store 0 1 = Inr (duel_report, [[], []], 6)"
  by (simp add: battle_round_def duel_store_def duel_report_def duel_side_def
      attacks_to_hits_def distribute_hits_across_defender_def defense_resolution_def
      apply_kills_def alive_types_def army_size_def dict_get_def binomial_rng_def
      multinomial_rng_def sure_hit_gen_def first_takes_all_def default_units_def
      default_units_items_def mk_unit_def Let_def)

lemma duel_round_simultaneous:
  "(0::nat) \<noteq> 1 \<and> 0 < length duel_store \<and> 1 < length duel_store
   \<and> battle_round sure_hit_gen 0 1 duel_store 0 1 = Inr (duel_report, [[], []], 6)
   \<and> attack_phase sure_hit_gen (duel_store ! 1) (duel_store ! 0) 3
       = Inr (1, [(''Peasants'', 1)], [(''Peasants'', 1)], 6)
   \<and> apply_kills (duel_store ! 0) [(''Peasants'', 1)] = ([], [(''Peasants'', 1)])"
proof -
  have h1: "(0::nat) \<noteq> 1" by simp
  have h2: "0 < length duel_store" and h3: "1 < length duel_store"
    by (simp_all add: duel_store_def)
  note t = battle_round_simultaneous[OF h1 h2 h3 duel_round]
  have p: "attack_phase sure_hit_gen (duel_store ! 1) (duel_store ! 0) 3
       = Inr (1, [(''Peasants'', 1)], [(''Peasants'', 1)], 6)"
    by (simp add: attack_phase_def duel_store_def
      attacks_to_hits_def distribute_hits_across_defender_def defense_resolution_def
      alive_types_def dict_get_def binomial_rng_def
      multinomial_rng_def sure_hit_gen_def first_takes_all_def default_units_def
      default_units_items_def mk_unit_def Let_def)
  have k: "apply_kills (duel_store ! 0) [(''Peasants'', 1)] = ([], [(''Peasants'', 1)])"
    by (simp add: apply_kills_def duel_store_def dict_get_def)
  from t h1 h2 h3 duel_round p k show ?thesis by simp
qed

text \<open>
  C8. \<open>simulate_battle\<close> leaves the caller's armies as they were: after the call,
  whether it returned a report or raised, the objects the two arguments refer to, and
  every other object the store held before, have the items they had before.
\<close>

theorem simulate_battle_keeps_inputs:
  assumes "army_a < length h" and "army_b < length h"
  shows "fst (simulate_battle gen h army_a army_b unit_defs seed max_rounds entropy) ! army_a
           = h ! army_a
       \<and> fst (simulate_battle gen h army_a army_b unit_defs seed max_rounds entropy) ! army_b
           = h ! army_b
       \<and> take (length h)
            (fst (simulate_battle gen h army_a army_b unit_defs seed max_rounds entropy)) = h"
proof -
  let ?rng = "rng_seed gen (case seed of None \<Rightarrow> entropy | Some s \<Rightarrow> s)"
  obtain ea eb res where
    r: "rounds_loop gen max_rounds (h ! army_a) (h ! army_b) ?rng [] 0 = (ea, eb, res)"
    by (cases "rounds_loop gen max_rounds (h ! army_a) (h ! army_b) ?rng [] 0") auto
  have "fst (simulate_battle gen h army_a army_b unit_defs seed max_rounds entropy)
      = h @ [ea, eb]"
    unfolding simulate_battle_on_values[OF assms] r
    by (cases res) (auto split: prod.splits)
  with assms show ?thesis by (simp add: nth_append)
qed

lemma duel_run:
  "simulate_battle sure_hit_gen duel_store 0 1 default_units (Some 1) 100000 7 =
     (duel_store @ [[], []],
      Inr \<lparr>rp_rounds = [duel_report],
           rp_summary = \<lparr>sm_winner = ''Draw/MaxRounds'', sm_rounds = 1, sm_final_A = [],
                          sm_final_B = [],
                          sm_final_sizes = \<lparr>fs_A = 0, fs_B = 0\<rparr>\<rparr>\<rparr>)"
  by (simp add: simulate_battle_def dict_copy_def battle_loop.simps battle_round_def
      duel_store_def duel_report_def duel_side_def
      attacks_to_hits_def distribute_hits_across_defender_def defense_resolution_def
      apply_kills_def alive_types_def army_size_def dict_get_def binomial_rng_def
      multinomial_rng_def sure_hit_gen_def first_takes_all_def default_units_def
      default_units_items_def mk_unit_def Let_def)

theorem simulate_battle_keeps_inputs_witness:
  "0 < length duel_store \<and> 1 < length duel_store
   \<and> fst (simulate_battle sure_hit_gen duel_store 0 1 default_units (Some 1) 100000 7)
       = [[(''Peasants'', 1)], [(''Peasants'', 1)], [], []]
   \<and> fst (simulate_battle sure_hit_gen duel_store 0 1 default_units (Some 1) 100000 7) ! 0
       = duel_store ! 0
   \<and> fst (simulate_battle sure_hit_gen duel_store 0 1 default_units (Some 1) 100000 7) ! 1
       = duel_store ! 1"
proof -
  have h2: "0 < length duel_store" and h3: "1 < length duel_store"
    by (simp_all add: duel_store_def)
  note t = simulate_battle_keeps_inputs[OF h2 h3, of sure_hit_gen default_units "Some 1"
      100000 7]
  have r: "fst (simulate_battle sure_hit_gen duel_store 0 1 default_units (Some 1) 100000 7)
       = [[(''Peasants'', 1)], [(''Peasants'', 1)], [], []]"
    by (simp only: duel_run fst_conv) (simp add: duel_store_def)
  from t h2 h3 r show ?thesis by (simp add: duel_store_def)
qed

text \<open>
  C6. For a run that returns a report: the winner is \<open>A\<close> exactly when B's final total
  is 0 and A's is positive, \<open>B\<close> exactly when A's final total is 0 and B's is positive,
  and the draw value in every other case, so when both totals are 0 and when both are
  positive; the reported final sizes are the totals of the reported final armies.
\<close>

theorem winner_classification:
  assumes "snd (simulate_battle gen h army_a army_b unit_defs seed max_rounds entropy)
             = Inr rep"
  shows "(sm_winner (rp_summary rep) = ''A'' \<longleftrightarrow>
            army_size (sm_final_B (rp_summary rep)) = 0
            \<and> 0 < army_size (sm_final_A (rp_summary rep)))
       \<and> (sm_winner (rp_summary rep) = ''B'' \<longleftrightarrow>
            army_size (sm_final_A (rp_summary rep)) = 0
            \<and> 0 < army_size (sm_final_B (rp_summary rep)))
       \<and> (sm_winner (rp_summary rep) = ''Draw/MaxRounds'' \<longleftrightarrow>
            \<not> (army_size (sm_final_B (rp_summary rep)) = 0
                \<and> 0 < army_size (sm_final_A (rp_summary rep)))
            \<and> \<not> (army_size (sm_final_A (rp_summary rep)) = 0
                \<and> 0 < army_size (sm_final_B (rp_summary rep))))
       \<and> (army_size (sm_final_A (rp_summary rep)) = 0
            \<and> army_size (sm_final_B (rp_summary rep)) = 0
            \<longrightarrow> sm_winner (rp_summary rep) = ''Draw/MaxRounds'')
       \<and> (0 < army_size (sm_final_A (rp_summary rep))
            \<and> 0 < army_size (sm_final_B (rp_summary rep))
            \<longrightarrow> sm_winner (rp_summary rep) = ''Draw/MaxRounds'')
       \<and> fs_A (sm_final_sizes (rp_summary rep)) = army_size (sm_final_A (rp_summary rep))
       \<and> fs_B (sm_final_sizes (rp_summary rep)) = army_size (sm_final_B (rp_summary rep))"
proof -
  let ?rng = "rng_seed gen (case seed of None \<Rightarrow> entropy | Some s \<Rightarrow> s)"
  let ?h1 = "h @ [h ! army_a]"
  let ?h2 = "?h1 @ [?h1 ! army_b]"
  obtain h3 res where
    l: "battle_loop gen max_rounds (length h) (length ?h1) ?h2 ?rng [] 0 = (h3, res)"
    by (cases "battle_loop gen max_rounds (length h) (length ?h1) ?h2 ?rng [] 0")
  show ?thesis
  proof (cases res)
    case (Inl e)
    with assms l show ?thesis
      by (simp add: simulate_battle_def dict_copy_def Let_def)
  next
    case (Inr p)
    obtain rounds round_idx where p: "p = (rounds, round_idx)" by (cases p)
    from assms l Inr p have
      "rep = \<lparr>rp_rounds = rounds,
              rp_summary =
                \<lparr>sm_winner =
                   (if army_size (h3 ! length h) > 0 \<and> army_size (h3 ! length ?h1) = 0
                    then ''A''
                    else if army_size (h3 ! length ?h1) > 0 \<and> army_size (h3 ! length h) = 0
                    then ''B'' else ''Draw/MaxRounds''),
                 sm_rounds = round_idx, sm_final_A = h3 ! length h,
                 sm_final_B = h3 ! length ?h1,
                 sm_final_sizes = \<lparr>fs_A = army_size (h3 ! length h),
                                   fs_B = army_size (h3 ! length ?h1)\<rparr>\<rparr>\<rparr>"
      by (simp add: simulate_battle_def dict_copy_def Let_def)
    then show ?thesis
      by (cases "army_size (h3 ! length h) > 0 \<and> army_size (h3 ! length ?h1) = 0";
          cases "army_size (h3 ! length ?h1) > 0 \<and> army_size (h3 ! length h) = 0")
         auto
  qed
qed


theorem winner_classification_witness:
  "(\<exists>rep. snd (simulate_battle sure_hit_gen [[(''Peasants'', 2)], [(''Peasants'', 1)]] 0 1
                 default_units (Some 1) 100000 7) = Inr rep
      \<and> sm_winner (rp_summary rep) = ''A''
      \<and> army_size (sm_final_A (rp_summary rep)) = 1
      \<and> army_size (sm_final_B (rp_summary rep)) = 0)
   \<and> (\<exists>rep. snd (simulate_battle sure_hit_gen duel_store 0 1
                 default_units (Some 1) 100000 7) = Inr rep
      \<and> sm_winner (rp_summary rep) = ''Draw/MaxRounds''
      \<and> army_size (sm_final_A (rp_summary rep)) = 0
      \<and> army_size (sm_final_B (rp_summary rep)) = 0)"
proof -
  obtain rep where run:
    "snd (simulate_battle sure_hit_gen [[(''Peasants'', 2)], [(''Peasants'', 1)]] 0 1
            default_units (Some 1) 100000 7) = Inr rep"
    and fin: "sm_final_A (rp_summary rep) = [(''Peasants'', 1)]"
             "sm_final_B (rp_summary rep) = []"
    by (simp add: simulate_battle_def dict_copy_def battle_loop.simps battle_round_def
      attacks_to_hits_def distribute_hits_across_defender_def defense_resolution_def
      apply_kills_def alive_types_def army_size_def dict_get_def binomial_rng_def
      multinomial_rng_def sure_hit_gen_def first_takes_all_def default_units_def
      default_units_items_def mk_unit_def Let_def)
  note t = winner_classification[OF run]
  have s: "army_size (sm_final_A (rp_summary rep)) = 1"
          "army_size (sm_final_B (rp_summary rep)) = 0"
    by (simp_all add: fin army_size_def)
  from t s have first: "sm_winner (rp_summary rep) = ''A''" by simp
  have second: "\<exists>rep. snd (simulate_battle sure_hit_gen duel_store 0 1
                 default_units (Some 1) 100000 7) = Inr rep
      \<and> sm_winner (rp_summary rep) = ''Draw/MaxRounds''
      \<and> army_size (sm_final_A (rp_summary rep)) = 0
      \<and> army_size (sm_final_B (rp_summary rep)) = 0"
    by (simp only: duel_run snd_conv) (simp add: army_size_def)
  from run first s second show ?thesis by blast
qed




text \<open>
  C9. With a seed given, the report or exception of \<open>simulate_battle\<close> is a function
  of the two armies' items, the seed and the round bound alone: two calls on equal
  armies, wherever the armies and whatever else lie in the two stores and whatever the
  operating system's entropy is, return the same round log and the same summary.
\<close>

theorem simulate_battle_deterministic:
  assumes "a1 < length h1" and "b1 < length h1" and "a2 < length h2" and "b2 < length h2"
    and "h1 ! a1 = h2 ! a2" and "h1 ! b1 = h2 ! b2"
  shows "snd (simulate_battle gen h1 a1 b1 unit_defs (Some seed) max_rounds entropy1)
       = snd (simulate_battle gen h2 a2 b2 unit_defs (Some seed) max_rounds entropy2)"
proof -
  obtain ea eb res where
    r: "rounds_loop gen max_rounds (h2 ! a2) (h2 ! b2) (rng_seed gen seed) [] 0 = (ea, eb, res)"
    by (cases "rounds_loop gen max_rounds (h2 ! a2) (h2 ! b2) (rng_seed gen seed) [] 0") auto
  show ?thesis
    unfolding simulate_battle_on_values[OF assms(1,2)] simulate_battle_on_values[OF assms(3,4)]
      assms(5,6) option.case r
    by (cases res) (auto split: prod.splits)
qed

theorem simulate_battle_deterministic_witness:
  "0 < length duel_store \<and> 1 < length duel_store
   \<and> 2 < length [[(''Knights'', 9::int)], [(''Peasants'', 1)], [(''Peasants'', 1)]]
   \<and> 1 < length [[(''Knights'', 9::int)], [(''Peasants'', 1)], [(''Peasants'', 1)]]
   \<and> duel_store ! 0 = [[(''Knights'', 9::int)], [(''Peasants'', 1)], [(''Peasants'', 1)]] ! 2
   \<and> duel_store ! 1 = [[(''Knights'', 9::int)], [(''Peasants'', 1)], [(''Peasants'', 1)]] ! 1
   \<and> snd (simulate_battle sure_hit_gen duel_store 0 1 default_units (Some 1) 100000 7)
     = snd (simulate_battle sure_hit_gen
              [[(''Knights'', 9)], [(''Peasants'', 1)], [(''Peasants'', 1)]] 2 1
              default_units (Some 1) 100000 8)"
proof -
  have h: "0 < length duel_store" "1 < length duel_store"
    "2 < length [[(''Knights'', 9::int)], [(''Peasants'', 1)], [(''Peasants'', 1)]]"
    "1 < length [[(''Knights'', 9::int)], [(''Peasants'', 1)], [(''Peasants'', 1)]]"
    "duel_store ! 0 = [[(''Knights'', 9::int)], [(''Peasants'', 1)], [(''Peasants'', 1)]] ! 2"
    "duel_store ! 1 = [[(''Knights'', 9::int)], [(''Peasants'', 1)], [(''Peasants'', 1)]] ! 1"
    by (simp_all add: duel_store_def)
  note t = simulate_battle_deterministic[OF h, of sure_hit_gen default_units 1 100000 7 8]
  from t h show ?thesis by (intro conjI)
qed

text \<open>
  C1, as the code has it. \<open>simulate_battle\<close> never reads its \<open>unit_defs\<close>
  argument: hit generation and defense resolution look the unit type up in the
  module-level \<open>default_units\<close>. An army that \<open>make_army\<close> accepts under another
  catalog makes the battle raise \<open>KeyError\<close>, and a peasant is drawn with the default
  table's 5 percent whatever catalog was passed.
\<close>

theorem simulate_battle_reads_default_units:
  "make_army [(''Dragons'', 1)] custom_units = Inr [(''Dragons'', 1)]
   \<and> snd (simulate_battle gen [[(''Dragons'', 1)], [(''Peasants'', 1)]] 0 1 custom_units
            seed 100000 entropy) = Inl (KeyError ''Dragons'')
   \<and> attacks_to_hits gen [(''Peasants'', 1)] rng = Inr (rng_binomial gen rng 1 (1 / 20))
   \<and> simulate_battle gen h army_a army_b custom_units seed max_rounds entropy
       = simulate_battle gen h army_a army_b default_units seed max_rounds entropy"
proof (intro conjI)
  show "make_army [(''Dragons'', 1)] custom_units = Inr [(''Dragons'', 1)]"
    by (simp add: make_army_def custom_units_def)
  show "snd (simulate_battle gen [[(''Dragons'', 1)], [(''Peasants'', 1)]] 0 1 custom_units
            seed 100000 entropy) = Inl (KeyError ''Dragons'')"
    by (simp add: simulate_battle_def dict_copy_def battle_loop.simps battle_round_def
      attacks_to_hits_def army_size_def default_units_def default_units_items_def Let_def)
  show "attacks_to_hits gen [(''Peasants'', 1)] rng = Inr (rng_binomial gen rng 1 (1 / 20))"
    by (simp add: attacks_to_hits_def binomial_rng_def default_units_def
      default_units_items_def mk_unit_def split: prod.splits)
  show "simulate_battle gen h army_a army_b custom_units seed max_rounds entropy
       = simulate_battle gen h army_a army_b default_units seed max_rounds entropy"
    by (simp add: simulate_battle_def)
qed

lemma simultaneous_round_is_simultaneous:
  assumes "simultaneous_round gen a b rng i = Inr (r, ea, eb, rng')"
  shows "round_simultaneous gen a b r" and "sr_army (rr_A r) = ea" and "sr_army (rr_B r) = eb"
proof -
  from assms obtain ah aa ak rm where
    p1: "attack_phase gen a b rng = Inr (ah, aa, ak, rm)"
    by (auto simp: simultaneous_round_def split: sum.splits)
  from assms p1 obtain bh ba bk where
    p2: "attack_phase gen b a rm = Inr (bh, ba, bk, rng')"
    by (auto simp: simultaneous_round_def Let_def split: sum.splits prod.splits)
  obtain eb' ad where kb: "apply_kills b ak = (eb', ad)" by (cases "apply_kills b ak")
  obtain ea' bd where ka: "apply_kills a bk = (ea', bd)" by (cases "apply_kills a bk")
  from assms p1 p2 ka kb have r: "r = \<lparr>rr_round = i,
      rr_A = \<lparr>sr_size_end = army_size ea', sr_hits = ah, sr_assigned_hits = aa,
              sr_kills_after_defense = ak, sr_kills = ad, sr_army = ea'\<rparr>,
      rr_B = \<lparr>sr_size_end = army_size eb', sr_hits = bh, sr_assigned_hits = ba,
              sr_kills_after_defense = bk, sr_kills = bd, sr_army = eb'\<rparr>\<rparr>"
    and e: "ea = ea'" "eb = eb'"
    by (auto simp: simultaneous_round_def)
  from r e show "sr_army (rr_A r) = ea" and "sr_army (rr_B r) = eb" by simp_all
  have "attack_phase gen a b rng
          = Inr (sr_hits (rr_A r), sr_assigned_hits (rr_A r),
                 sr_kills_after_defense (rr_A r), rm)
        \<and> attack_phase gen b a rm
          = Inr (sr_hits (rr_B r), sr_assigned_hits (rr_B r),
                 sr_kills_after_defense (rr_B r), rng')
        \<and> apply_kills b (sr_kills_after_defense (rr_A r))
          = (sr_army (rr_B r), sr_kills (rr_A r))
        \<and> apply_kills a (sr_kills_after_defense (rr_B r))
          = (sr_army (rr_A r), sr_kills (rr_B r))"
    using p1 p2 ka kb r by simp
  then show "round_simultaneous gen a b r"
    unfolding round_simultaneous_def by (intro exI)
qed

lemma rounds_loop_simultaneous:
  assumes "rounds_loop gen max_rounds a b rng rounds round_idx
             = (ea, eb, Inr (rounds', idx'))"
  shows "\<exists>new. rounds' = rounds @ new \<and> log_simultaneous gen a b new"
  using assms
proof (induction gen max_rounds a b rng rounds round_idx rule: rounds_loop.induct)
  case (1 gen max_rounds a b rng rounds round_idx)
  let ?go = "army_size a > 0 \<and> army_size b > 0 \<and> round_idx < max_rounds"
  show ?case
  proof (cases ?go)
    case False
    from "1.prems" have "rounds' = rounds"
      by (simp only: rounds_loop_stop[OF False, of gen rng rounds] prod.inject sum.inject)
    then have "rounds' = rounds @ [] \<and> log_simultaneous gen a b []" by simp
    then show ?thesis by (rule exI)
  next
    case go: True
    show ?thesis
    proof (cases "simultaneous_round gen a b rng (round_idx + 1)")
      case (Inl e)
      with "1.prems" show ?thesis
        by (simp only: rounds_loop_step[OF go, of gen rng rounds] sum.case prod.inject) simp
    next
      case (Inr r)
      then obtain rep na nb rng' where
        r: "simultaneous_round gen a b rng (round_idx + 1) = Inr (rep, na, nb, rng')"
        by (cases r) auto
      from "1.prems" have rec: "rounds_loop gen max_rounds na nb rng' (rounds @ [rep])
          (round_idx + 1) = (ea, eb, Inr (rounds', idx'))"
        by (simp only: rounds_loop_step[OF go, of gen rng rounds] r sum.case prod.case)
      from "1.IH"[OF go r refl refl refl rec] obtain new where
        n: "rounds' = (rounds @ [rep]) @ new" and l: "log_simultaneous gen na nb new"
        by (elim exE conjE)
      from simultaneous_round_is_simultaneous[OF r] l
      have "log_simultaneous gen a b (rep # new)" by simp
      with n have "rounds' = rounds @ (rep # new) \<and> log_simultaneous gen a b (rep # new)"
        by simp
      then show ?thesis by (rule exI)
    qed
  qed
qed

text \<open>
  C2. In every round of a run of \<open>simulate_battle\<close> that returns a report, both
  sides' penetrating hits are computed from the two armies as they stood when the round
  began (the caller's armies for the first round, the armies the previous round left
  for the others), B's attack phase reading A's starting state and not A after this
  round's casualties, and each army at the end of the round is its starting state with
  the other side's penetrating hits applied: nothing is applied before both sets exist.
\<close>

theorem simulate_battle_rounds_simultaneous:
  assumes "army_a < length h" and "army_b < length h"
    and "snd (simulate_battle gen h army_a army_b unit_defs seed max_rounds entropy)
           = Inr rep"
  shows "log_simultaneous gen (h ! army_a) (h ! army_b) (rp_rounds rep)"
proof -
  let ?rng = "rng_seed gen (case seed of None \<Rightarrow> entropy | Some s \<Rightarrow> s)"
  obtain ea eb res where
    r: "rounds_loop gen max_rounds (h ! army_a) (h ! army_b) ?rng [] 0 = (ea, eb, res)"
    by (cases "rounds_loop gen max_rounds (h ! army_a) (h ! army_b) ?rng [] 0") auto
  note sim = simulate_battle_on_values[OF assms(1,2), of gen unit_defs seed max_rounds entropy]
  from assms(3) sim r obtain rounds idx where res: "res = Inr (rounds, idx)"
    by (cases res) (auto split: prod.splits)
  from assms(3) sim r res have rep: "rp_rounds rep = rounds" by auto
  from r res have loop: "rounds_loop gen max_rounds (h ! army_a) (h ! army_b) ?rng [] 0
      = (ea, eb, Inr (rounds, idx))" by simp
  from rounds_loop_simultaneous[OF loop] rep show ?thesis by simp
qed

theorem simulate_battle_rounds_simultaneous_witness:
  "0 < length duel_store \<and> 1 < length duel_store
   \<and> (\<exists>rep. snd (simulate_battle sure_hit_gen duel_store 0 1 default_units (Some 1)
                    100000 7) = Inr rep
         \<and> rp_rounds rep = [duel_report]
         \<and> log_simultaneous sure_hit_gen (duel_store ! 0) (duel_store ! 1) (rp_rounds rep))
   \<and> attack_phase sure_hit_gen (duel_store ! 1) (duel_store ! 0) 3
       = Inr (1, [(''Peasants'', 1)], [(''Peasants'', 1)], 6)
   \<and> apply_kills (duel_store ! 0) [(''Peasants'', 1)] = ([], [(''Peasants'', 1)])"
proof -
  have h2: "0 < length duel_store" and h3: "1 < length duel_store"
    by (simp_all add: duel_store_def)
  obtain rep where run: "snd (simulate_battle sure_hit_gen duel_store 0 1 default_units
      (Some 1) 100000 7) = Inr rep" and log: "rp_rounds rep = [duel_report]"
    by (simp only: duel_run snd_conv) simp
  note t = simulate_battle_rounds_simultaneous[OF h2 h3 run]
  from run log t have e: "\<exists>rep. snd (simulate_battle sure_hit_gen duel_store 0 1
         default_units (Some 1) 100000 7) = Inr rep
         \<and> rp_rounds rep = [duel_report]
         \<and> log_simultaneous sure_hit_gen (duel_store ! 0) (duel_store ! 1) (rp_rounds rep)"
    by blast
  from h2 h3 e duel_round_simultaneous show ?thesis by simp
qed

end
